theory Spec2Isabelle
  imports Complex_Main "HOL-Library.Char_ord" "HOL-Library.List_Lexorder"
begin

section \<open>The training script \<^verbatim>\<open>train_model_old.py\<close>\<close>

text \<open>
  The script is a straight line of statements over library calls.  The statements of
  the script are embedded as they are written; each library function the script
  calls is embedded by a definition that carries the library's own name and a
  comment naming the library routine it follows.  Python exceptions are values of
  \<open>py_error\<close>, and a stage that can raise returns \<open>py_error + 'a\<close>.
\<close>

subsection \<open>Python values the script relies on\<close>

datatype py_error =
    IndexError
  | ValueError
  | ZeroDivisionError
  | IOError
  | SystemExit nat

text \<open>Integer floor division \<^verbatim>\<open>a // b\<close>: raises on a zero divisor.\<close>

definition py_floordiv :: "int \<Rightarrow> int \<Rightarrow> py_error + int" where
  "py_floordiv a b = (if b = 0 then Inl ZeroDivisionError else Inr (a div b))"

text \<open>List indexing \<^verbatim>\<open>xs[i]\<close>: a negative index counts from the end, an index
  outside the list raises \<^verbatim>\<open>IndexError\<close>.\<close>

definition py_index :: "'a list \<Rightarrow> int \<Rightarrow> py_error + 'a" where
  "py_index xs i =
     (let j = (if i < 0 then i + int (length xs) else i)
      in if j < 0 \<or> int (length xs) \<le> j then Inl IndexError else Inr (xs ! nat j))"

text \<open>\<^verbatim>\<open>s.split(sep)\<close> for a separator of one character (\<^verbatim>\<open>os.path.sep\<close>
  is one character on every platform): every occurrence of the separator cuts, empty
  pieces are kept, and the result is never empty.\<close>

fun str_split :: "char \<Rightarrow> string \<Rightarrow> string list" where
  "str_split sep [] = [ [] ]"
| "str_split sep (x # xs) =
     (let r = str_split sep xs
      in if x = sep then [] # r else (x # hd r) # tl r)"

subsection \<open>Command line (lines 29 to 37)\<close>

















subsection \<open>Hyperparameters (lines 41 to 43)\<close>



definition BS :: int where
  "BS = 32"

subsection \<open>Class label of an image path (line 55)\<close>

text \<open>\<^verbatim>\<open>label = imagePath.split(os.path.sep)[-2]\<close>\<close>

definition label_of :: "char \<Rightarrow> string \<Rightarrow> py_error + string" where
  "label_of sep imagePath = py_index (str_split sep imagePath) (- 2)"

subsection \<open>Enumerating the image files (line 48)\<close>

text \<open>
  A directory is the list of its entries; an entry is a file or a directory with
  entries of its own.
\<close>

datatype fs_entry = File string | Dir string "fs_entry list"

text \<open>\<^verbatim>\<open>os.path.join(a, b)\<close>\<close>

definition os_path_join :: "char \<Rightarrow> string \<Rightarrow> string \<Rightarrow> string" where
  "os_path_join sep a b =
     (if b \<noteq> [] \<and> hd b = sep then b
      else if a = [] \<or> last a = sep then a @ b
      else a @ sep # b)"

primrec dirnames :: "fs_entry list \<Rightarrow> string list" where
  "dirnames [] = []"
| "dirnames (e # es) = (case e of Dir n _ \<Rightarrow> n # dirnames es | File _ \<Rightarrow> dirnames es)"

primrec filenames :: "fs_entry list \<Rightarrow> string list" where
  "filenames [] = []"
| "filenames (e # es) = (case e of File n \<Rightarrow> n # filenames es | Dir _ _ \<Rightarrow> filenames es)"

text \<open>\<^verbatim>\<open>os.walk(rootDir)\<close>, top down: the directory itself, then each of its
  subdirectories in turn.  It reports no error.\<close>

fun os_walk ::
    "char \<Rightarrow> string \<Rightarrow> fs_entry list \<Rightarrow> (string \<times> string list \<times> string list) list"
  and walk_subdirs ::
    "char \<Rightarrow> string \<Rightarrow> fs_entry list \<Rightarrow> (string \<times> string list \<times> string list) list"
where
  "os_walk sep rootDir es = (rootDir, dirnames es, filenames es) # walk_subdirs sep rootDir es"
| "walk_subdirs sep rootDir [] = []"
| "walk_subdirs sep rootDir (File n # es) = walk_subdirs sep rootDir es"
| "walk_subdirs sep rootDir (Dir n sub # es) =
     os_walk sep (os_path_join sep rootDir n) sub @ walk_subdirs sep rootDir es"

text \<open>\<^verbatim>\<open>s.lower()\<close> on ASCII letters, \<^verbatim>\<open>s.rfind(c)\<close>, the slice \<^verbatim>\<open>s[i:]\<close> and
  \<^verbatim>\<open>s.endswith(tuple)\<close>.\<close>

definition chr_lower :: "char \<Rightarrow> char" where
  "chr_lower c =
     (case map_of (zip ''ABCDEFGHIJKLMNOPQRSTUVWXYZ'' ''abcdefghijklmnopqrstuvwxyz'') c of
        Some l \<Rightarrow> l
      | None \<Rightarrow> c)"

definition str_lower :: "string \<Rightarrow> string" where
  "str_lower s = map chr_lower s"

definition str_rfind :: "string \<Rightarrow> char \<Rightarrow> int" where
  "str_rfind s c =
     (if c \<in> set s then int (length s) - 1 - int (length (takeWhile (\<lambda>x. x \<noteq> c) (rev s)))
      else - 1)"

definition py_slice_from :: "'a list \<Rightarrow> int \<Rightarrow> 'a list" where
  "py_slice_from xs i =
     (if i < 0 then drop (nat (max 0 (int (length xs) + i))) xs else drop (nat i) xs)"

definition str_endswith :: "string \<Rightarrow> string list \<Rightarrow> bool" where
  "str_endswith s sufs =
     list_ex (\<lambda>e. length e \<le> length s \<and> drop (length s - length e) s = e) sufs"

text \<open>
  \<^verbatim>\<open>imutils.paths.list_images(basePath)\<close>: walks the tree and yields, in order, the
  joined path of every file whose lower-cased extension
  \<^verbatim>\<open>filename[filename.rfind("."):]\<close> ends with one of \<^verbatim>\<open>image_types\<close>.
\<close>

definition image_types :: "string list" where
  "image_types = [''.jpg'', ''.jpeg'', ''.png'', ''.bmp'', ''.tif'', ''.tiff'']"

definition is_image :: "string \<Rightarrow> bool" where
  "is_image filename =
     str_endswith (str_lower (py_slice_from filename (str_rfind filename CHR ''.'')))
       image_types"

definition list_images :: "char \<Rightarrow> string \<Rightarrow> fs_entry list \<Rightarrow> string list" where
  "list_images sep basePath es =
     concat (map (\<lambda>(rootDir, dirNames, names).
                    map (os_path_join sep rootDir) (filter is_image names))
               (os_walk sep basePath es))"

text \<open>Every file name of a tree, at any depth.\<close>

fun all_filenames :: "fs_entry list \<Rightarrow> string list" where
  "all_filenames [] = []"
| "all_filenames (File n # es) = n # all_filenames es"
| "all_filenames (Dir n sub # es) = all_filenames sub @ all_filenames es"

subsection \<open>Loading the images (lines 48 to 68)\<close>

text \<open>
  The loop over \<^verbatim>\<open>imagePaths\<close>.  \<open>load\<close> stands for the three library calls
  \<^verbatim>\<open>load_img\<close>, \<^verbatim>\<open>img_to_array\<close> and \<^verbatim>\<open>preprocess_input\<close> on one path; it
  raises on a file that cannot be read.  The loop appends to \<^verbatim>\<open>data\<close> and
  \<^verbatim>\<open>labels\<close>, and the first exception ends it.
\<close>

fun load_loop ::
  "(string \<Rightarrow> py_error + 'img) \<Rightarrow> char \<Rightarrow> string list \<Rightarrow> 'img list \<times> string list
   \<Rightarrow> py_error + ('img list \<times> string list)" where
  "load_loop load sep [] (data, labels) = Inr (data, labels)"
| "load_loop load sep (imagePath # rest) (data, labels) =
     (case label_of sep imagePath of
        Inl e \<Rightarrow> Inl e
      | Inr label \<Rightarrow>
          (case load imagePath of
             Inl e \<Rightarrow> Inl e
           | Inr img \<Rightarrow> load_loop load sep rest (data @ [img], labels @ [label])))"

definition load_dataset ::
  "(string \<Rightarrow> py_error + 'img) \<Rightarrow> char \<Rightarrow> string \<Rightarrow> fs_entry list
   \<Rightarrow> py_error + ('img list \<times> string list)" where
  "load_dataset load sep dataset es =
     load_loop load sep (list_images sep dataset es) ([], [])"

subsection \<open>Encoding the labels (lines 71 to 73)\<close>

text \<open>
  Arrays are nested lists, outermost axis first.  The binarised labels hold only 0 and
  1 (the binariser's \<^verbatim>\<open>neg_label\<close> and \<^verbatim>\<open>pos_label\<close>), so their entries are
  natural numbers.  The result of \<^verbatim>\<open>to_categorical\<close> has two or three axes.
\<close>

datatype ndarray = Arr2 "nat list list" | Arr3 "nat list list list"

datatype index_array = Idx1 "nat list" | Idx2 "nat list list"

datatype name_array = Names1 "string list" | Names2 "string list list"

datatype target_type = Binary | Multiclass

record label_binarizer =
  lb_classes :: "string list"
  lb_y_type :: target_type

text \<open>\<^verbatim>\<open>np.unique\<close>: the distinct values in increasing order; \<^verbatim>\<open>np.searchsorted\<close>
  (left): how many entries of the sorted array lie before the value.\<close>

definition np_unique :: "string list \<Rightarrow> string list" where
  "np_unique y = sort (remdups y)"

definition searchsorted :: "string list \<Rightarrow> string \<Rightarrow> nat" where
  "searchsorted sorted_class v = length (takeWhile (\<lambda>c. c < v) sorted_class)"

text \<open>A row of \<open>k\<close> zeros with a one at column \<open>i\<close>.\<close>

definition onehot :: "nat \<Rightarrow> nat \<Rightarrow> nat list" where
  "onehot k i = map (\<lambda>j. if j = i then 1 else 0) [0..<k]"

text \<open>\<^verbatim>\<open>sklearn.utils.multiclass.type_of_target\<close> on a one-dimensional array of
  strings: binary for at most two distinct values, multiclass otherwise.\<close>

definition type_of_target :: "string list \<Rightarrow> target_type" where
  "type_of_target y = (if length (np_unique y) \<le> 2 then Binary else Multiclass)"

text \<open>\<^verbatim>\<open>LabelBinarizer.fit\<close>: refuses an array of zero samples.\<close>

definition LabelBinarizer_fit :: "string list \<Rightarrow> py_error + label_binarizer" where
  "LabelBinarizer_fit y =
     (if y = [] then Inl ValueError
      else Inr \<lparr>lb_classes = np_unique y, lb_y_type = type_of_target y\<rparr>)"

text \<open>
  \<^verbatim>\<open>sklearn.preprocessing.label_binarize\<close> with dense output.  A single class gives a
  column of zeros.  Otherwise each label gives the indicator row of its class (a row
  of zeros for a label that is no class); for a binary target only the last column is
  kept, as a column.
\<close>

definition label_binarize :: "string list \<Rightarrow> string list \<Rightarrow> nat list list" where
  "label_binarize y classes =
     (let n_classes = length classes;
          y_type = type_of_target y
      in if y_type = Binary \<and> n_classes = 1 then map (\<lambda>_. [0]) y
         else
           let y_type = (if y_type = Binary \<and> 3 \<le> n_classes then Multiclass else y_type);
               sorted_class = sort classes;
               Y = map (\<lambda>v. if v \<in> set classes
                             then onehot n_classes (searchsorted sorted_class v)
                             else replicate n_classes 0) y
           in if y_type = Binary then map (\<lambda>row. [last row]) Y else Y)"

definition LabelBinarizer_transform :: "label_binarizer \<Rightarrow> string list \<Rightarrow> nat list list" where
  "LabelBinarizer_transform lb y = label_binarize y (lb_classes lb)"

definition LabelBinarizer_fit_transform ::
  "string list \<Rightarrow> py_error + (label_binarizer \<times> nat list list)" where
  "LabelBinarizer_fit_transform y =
     (case LabelBinarizer_fit y of
        Inl e \<Rightarrow> Inl e
      | Inr lb \<Rightarrow> Inr (lb, LabelBinarizer_transform lb y))"

text \<open>
  \<^verbatim>\<open>tensorflow.keras.utils.to_categorical(y)\<close> on an array of two axes, with
  \<^verbatim>\<open>num_classes\<close> left out.  A last axis of length 1 is dropped from the shape.  The
  number of classes is the largest entry plus one (\<^verbatim>\<open>np.max\<close> raises on an array
  without entries).  Every entry becomes its indicator row, and the rows are laid out
  in the input's shape with the new axis last.
\<close>

definition to_categorical :: "nat list list \<Rightarrow> py_error + ndarray" where
  "to_categorical y =
     (let flat = concat y
      in if flat = [] then Inl ValueError
         else
           let num_classes = Max (set flat) + 1
           in if length (hd y) = 1
              then Inr (Arr2 (map (onehot num_classes) flat))
              else Inr (Arr3 (map (map (onehot num_classes)) y)))"

text \<open>\<^verbatim>\<open>lb = LabelBinarizer(); labels = lb.fit_transform(labels);
  labels = to_categorical(labels)\<close>\<close>

definition encode_labels :: "string list \<Rightarrow> py_error + (label_binarizer \<times> ndarray)" where
  "encode_labels labels =
     (case LabelBinarizer_fit_transform labels of
        Inl e \<Rightarrow> Inl e
      | Inr (lb, Y) \<Rightarrow>
          (case to_categorical Y of
             Inl e \<Rightarrow> Inl e
           | Inr C \<Rightarrow> Inr (lb, C)))"

text \<open>The script from the enumeration of the files to the encoded labels (lines 48
  to 73): the first stage that raises ends the run.\<close>

definition load_and_encode ::
  "(string \<Rightarrow> py_error + 'img) \<Rightarrow> char \<Rightarrow> string \<Rightarrow> fs_entry list
   \<Rightarrow> py_error + ('img list \<times> label_binarizer \<times> ndarray)" where
  "load_and_encode load sep dataset es =
     (case load_dataset load sep dataset es of
        Inl e \<Rightarrow> Inl e
      | Inr (data, labels) \<Rightarrow>
          (case encode_labels labels of
             Inl e \<Rightarrow> Inl e
           | Inr (lb, C) \<Rightarrow> Inr (data, lb, C)))"

subsection \<open>Decoding (lines 136 to 140)\<close>

text \<open>
  \<^verbatim>\<open>np.argmax\<close> of a row is the position of the first largest entry;
  \<^verbatim>\<open>a.argmax(axis=1)\<close> takes it along the second axis, which for an array of three
  axes leaves a row of positions per sample, one for each index of the last axis.
\<close>

definition argmax :: "nat list \<Rightarrow> nat" where
  "argmax row = length (takeWhile (\<lambda>x. x \<noteq> Max (set row)) row)"

definition argmax_axis1 :: "ndarray \<Rightarrow> index_array" where
  "argmax_axis1 a =
     (case a of
        Arr2 rows \<Rightarrow> Idx1 (map argmax rows)
      | Arr3 mats \<Rightarrow> Idx2 (map (\<lambda>m. map argmax (transpose m)) mats))"

text \<open>Indexing the class list \<^verbatim>\<open>lb.classes_\<close> with an array of positions.\<close>

definition take_classes :: "string list \<Rightarrow> index_array \<Rightarrow> py_error + name_array" where
  "take_classes classes idx =
     (case idx of
        Idx1 is \<Rightarrow>
          if list_all (\<lambda>i. i < length classes) is
          then Inr (Names1 (map (\<lambda>i. classes ! i) is)) else Inl IndexError
      | Idx2 iss \<Rightarrow>
          if list_all (list_all (\<lambda>i. i < length classes)) iss
          then Inr (Names2 (map (map (\<lambda>i. classes ! i)) iss)) else Inl IndexError)"

text \<open>Encoding the labels, taking the argmax of every encoded label and reading the
  class list at it.\<close>

definition decode_encoded :: "string list \<Rightarrow> py_error + name_array" where
  "decode_encoded labels =
     (case encode_labels labels of
        Inl e \<Rightarrow> Inl e
      | Inr (lb, C) \<Rightarrow> take_classes (lb_classes lb) (argmax_axis1 C))"

text \<open>The width of the network's output layer, \<^verbatim>\<open>Dense(2, activation="softmax")\<close>
  (line 103).\<close>

definition head_units :: nat where
  "head_units = 2"

text \<open>An array of two axes whose rows have the width of the output layer, each the
  indicator row of the class of its label.\<close>

definition two_column_onehot :: "string list \<Rightarrow> label_binarizer \<times> ndarray \<Rightarrow> bool" where
  "two_column_onehot labels enc =
     (case snd enc of
        Arr2 rows \<Rightarrow>
          rows = map (\<lambda>v. onehot head_units (searchsorted (lb_classes (fst enc)) v)) labels
      | Arr3 _ \<Rightarrow> False)"

subsection \<open>The augmenter (lines 82 to 90)\<close>

text \<open>
  The geometric parameters of \<^verbatim>\<open>ImageDataGenerator\<close> with the defaults of its
  signature; a call overrides the parameters it names.  Decimal literals are the
  rationals they denote.
\<close>

record image_data_generator =
  rotation_range :: rat
  width_shift_range :: rat
  height_shift_range :: rat
  shear_range :: rat
  zoom_range :: rat
  channel_shift_range :: rat
  fill_mode :: string
  cval :: rat
  horizontal_flip :: bool
  vertical_flip :: bool

definition ImageDataGenerator :: image_data_generator where
  "ImageDataGenerator =
     \<lparr>rotation_range = 0, width_shift_range = 0, height_shift_range = 0,
      shear_range = 0, zoom_range = 0, channel_shift_range = 0,
      fill_mode = ''nearest'', cval = 0,
      horizontal_flip = False, vertical_flip = False\<rparr>"

definition train_transformations :: image_data_generator where
  "train_transformations =
     ImageDataGenerator
       \<lparr>rotation_range := 15,
        width_shift_range := 2 / 10,
        height_shift_range := 2 / 10,
        zoom_range := 10 / 100,
        shear_range := 10 / 100,
        horizontal_flip := True,
        fill_mode := ''nearest''\<rparr>"

subsection \<open>The network (lines 94 to 111) and its training (lines 122 to 128)\<close>

text \<open>
  Layers are objects: the heap holds them, and \<^verbatim>\<open>base_model.layers\<close> and
  \<^verbatim>\<open>model.layers\<close> are lists of positions in the heap, so that the model and the
  base model share the layers of the backbone.  A layer is created trainable.
  \<open>'w\<close> is the type of a layer's weights.
\<close>

datatype layer_kind = Pretrained | AveragePooling2D | Flatten | Dense nat | Dropout

record 'w layer =
  kind :: layer_kind
  trainable :: bool
  weights :: 'w

record 'w network =
  heap :: "'w layer list"
  base_model_layers :: "nat list"
  model_layers :: "nat list"

text \<open>The layers the script puts on top of the backbone, in order.\<close>

definition head_model :: "layer_kind list" where
  "head_model = [AveragePooling2D, Flatten, Dense 128, Dropout, Dense 2]"

text \<open>
  \<^verbatim>\<open>MobileNetV2(weights="imagenet", include_top=False, ...)\<close> creates one layer for
  each entry of the pretrained weights; the head's layers are created after them,
  with the weights their initialiser gives; \<^verbatim>\<open>Model(inputs, outputs)\<close> holds all the
  layers from the input to the output.
\<close>

definition build_model :: "'w list \<Rightarrow> (layer_kind \<Rightarrow> 'w) \<Rightarrow> 'w network" where
  "build_model imagenet init =
     (let base = map (\<lambda>w. \<lparr>kind = Pretrained, trainable = True, weights = w\<rparr>) imagenet;
          head = map (\<lambda>k. \<lparr>kind = k, trainable = True, weights = init k\<rparr>) head_model
      in \<lparr>heap = base @ head,
          base_model_layers = [0..<length base],
          model_layers = [0..<length base] @ [length base..<length base + length head]\<rparr>)"

text \<open>\<^verbatim>\<open>for layer in base_model.layers: layer.trainable = False\<close>\<close>

fun freeze_layers :: "nat list \<Rightarrow> 'w layer list \<Rightarrow> 'w layer list" where
  "freeze_layers [] h = h"
| "freeze_layers (i # is) h = freeze_layers is (h[i := (h ! i)\<lparr>trainable := False\<rparr>])"

definition frozen_model :: "'w list \<Rightarrow> (layer_kind \<Rightarrow> 'w) \<Rightarrow> 'w network" where
  "frozen_model imagenet init =
     (let net = build_model imagenet init
      in net\<lparr>heap := freeze_layers (base_model_layers net) (heap net)\<rparr>)"

text \<open>
  One optimiser step of \<^verbatim>\<open>model.fit\<close>: Keras applies the update to the weights of
  the model's trainable layers and to no others.  \<open>update i w\<close> is the new value of
  the weights \<open>w\<close> of layer \<open>i\<close> at this step, whatever the gradients make it.
\<close>

fun train_step :: "(nat \<Rightarrow> 'w \<Rightarrow> 'w) \<Rightarrow> nat list \<Rightarrow> 'w layer list \<Rightarrow> 'w layer list" where
  "train_step update [] h = h"
| "train_step update (i # is) h =
     train_step update is
       (if trainable (h ! i) then h[i := (h ! i)\<lparr>weights := update i (weights (h ! i))\<rparr>]
        else h)"

fun fit :: "(nat \<Rightarrow> nat \<Rightarrow> 'w \<Rightarrow> 'w) \<Rightarrow> nat \<Rightarrow> 'w network \<Rightarrow> 'w network" where
  "fit updates 0 net = net"
| "fit updates (Suc n) net =
     (let net' = fit updates n net
      in net'\<lparr>heap := train_step (updates n) (model_layers net') (heap net')\<rparr>)"

subsection \<open>The optimiser (line 116)\<close>





subsection \<open>Step counts handed to the trainer (lines 124 and 126)\<close>

text \<open>\<^verbatim>\<open>steps_per_epoch = len(X_train) // BS\<close> and
  \<^verbatim>\<open>validation_steps = len(X_test) // BS\<close>; \<^verbatim>\<open>len\<close> of an array is its number
  of rows.\<close>

definition steps_per_epoch :: "'a list \<Rightarrow> py_error + int" where
  "steps_per_epoch X_train = py_floordiv (int (length X_train)) BS"

definition validation_steps :: "'a list \<Rightarrow> py_error + int" where
  "validation_steps X_test = py_floordiv (int (length X_test)) BS"

section \<open>Properties\<close>

subsection \<open>Splitting a path\<close>

lemma str_split_nonempty: "str_split sep s \<noteq> []"
  by (induction s) (auto simp: Let_def)

lemma str_split_no_sep: "sep \<notin> set s \<Longrightarrow> str_split sep s = [s]"
  by (induction s) (auto simp: Let_def)

lemma str_split_append:
  "sep \<notin> set f \<Longrightarrow> str_split sep (d @ sep # f) = str_split sep d @ [f]"
proof (induction d)
  case Nil
  then show ?case by (simp add: str_split_no_sep)
next
  case (Cons x d)
  have ne: "str_split sep d \<noteq> []" by (rule str_split_nonempty)
  from Cons show ?case
    by (cases "str_split sep d") (use ne in \<open>auto simp: Let_def\<close>)
qed

lemma py_index_minus2_snoc:
  "xs \<noteq> [] \<Longrightarrow> py_index (xs @ [f]) (- 2) = Inr (last xs)"
  by (induction xs rule: rev_induct) (auto simp: py_index_def Let_def nth_append)

subsection \<open>Command line\<close>


















subsection \<open>Step counts\<close>

text \<open>
  Claim C4.  For a training set of \<open>T\<close> rows and a test set of \<open>S\<close> rows, with the
  batch size 32 of the script, the trainer is given \<open>\<lfloor>T / 32\<rfloor>\<close> steps per epoch and
  \<open>\<lfloor>S / 32\<rfloor>\<close> validation steps.  The division never raises, and the rows of a
  partial last batch are left out: the steps cover at most \<open>T\<close> (or \<open>S\<close>) rows and fewer
  than one batch is dropped.
\<close>

theorem steps_floor_division:
  fixes X_train :: "'a list" and X_test :: "'b list"
  defines "T \<equiv> length X_train" and "S \<equiv> length X_test"
  shows "BS = 32
       \<and> steps_per_epoch X_train = Inr \<lfloor>real T / real_of_int BS\<rfloor>
       \<and> validation_steps X_test = Inr \<lfloor>real S / real_of_int BS\<rfloor>
       \<and> BS * \<lfloor>real T / real_of_int BS\<rfloor> \<le> int T
       \<and> int T < BS * \<lfloor>real T / real_of_int BS\<rfloor> + BS
       \<and> BS * \<lfloor>real S / real_of_int BS\<rfloor> \<le> int S
       \<and> int S < BS * \<lfloor>real S / real_of_int BS\<rfloor> + BS"
proof -
  have fl: "\<lfloor>real n / real_of_int BS\<rfloor> = int n div 32" for n :: nat
  proof -
    have "real n / real_of_int BS = real_of_int (int n) / real_of_int 32"
      by (simp add: BS_def)
    then show ?thesis
      by (simp only: floor_divide_of_int_eq)
  qed
  have lo: "BS * (int n div 32) \<le> int n" for n :: nat
    by (simp add: BS_def)
  have hi: "int n < BS * (int n div 32) + BS" for n :: nat
    unfolding BS_def by presburger
  show ?thesis
    unfolding fl T_def S_def using lo hi
    by (simp add: steps_per_epoch_def validation_steps_def py_floordiv_def BS_def)
qed

subsection \<open>Labels from paths\<close>

text \<open>
  Claim C10.  An image path is the path of a directory, a separator, and a file name
  holding no separator.  Its label is the component before the last one, which is the
  last component of the directory's path, that is, the name of the directory the file
  lies in.  No such path is rejected.  In particular, for a file directly inside a
  dataset directory whose path holds no separator, the label is the dataset
  directory's own name.
\<close>

theorem label_is_parent_directory:
  assumes "sep \<notin> set f"
  shows "label_of sep (d @ sep # f) = Inr (last (str_split sep d))
       \<and> 2 \<le> length (str_split sep (d @ sep # f))
       \<and> last (str_split sep d) =
           str_split sep (d @ sep # f) ! (length (str_split sep (d @ sep # f)) - 2)
       \<and> (sep \<notin> set d \<longrightarrow> label_of sep (d @ sep # f) = Inr d)"
proof -
  let ?cs = "str_split sep d"
  have ne: "?cs \<noteq> []" by (rule str_split_nonempty)
  have sp: "str_split sep (d @ sep # f) = ?cs @ [f]"
    using assms by (rule str_split_append)
  have lab: "label_of sep (d @ sep # f) = Inr (last ?cs)"
    unfolding label_of_def sp using ne by (rule py_index_minus2_snoc)
  have len: "2 \<le> length (?cs @ [f])"
    using ne by (cases ?cs) auto
  have nth: "last ?cs = (?cs @ [f]) ! (length (?cs @ [f]) - 2)"
    using ne by (simp add: last_conv_nth nth_append)
  have top: "sep \<notin> set d \<longrightarrow> label_of sep (d @ sep # f) = Inr d"
    using lab by (simp add: str_split_no_sep)
  show ?thesis
    unfolding sp using lab len nth top unfolding sp by blast
qed

theorem label_is_parent_directory_witness:
  "CHR ''/'' \<notin> set ''img.png''
   \<and> label_of CHR ''/'' ''dataset/with_mask/img.png'' = Inr ''with_mask''
   \<and> label_of CHR ''/'' ''dataset/img.png'' = Inr ''dataset''"
  using label_is_parent_directory [of "CHR ''/''" "''img.png''" "''dataset/with_mask''"]
    label_is_parent_directory [of "CHR ''/''" "''img.png''" "''dataset''"]
  by (simp add: Let_def)

subsection \<open>The augmenter\<close>

text \<open>
  Claim C7.  The augmenter is built with a rotation range of 15 degrees, width and
  height shift ranges of 20 percent, zoom and shear ranges of 10 percent each,
  horizontal flips switched on and the fill mode \<^verbatim>\<open>nearest\<close>; the call names no
  other parameter, so channel shift, fill value and vertical flip keep their defaults.
\<close>

theorem augmenter_configuration:
  "rotation_range train_transformations = 15
   \<and> width_shift_range train_transformations = 20 / 100
   \<and> height_shift_range train_transformations = 20 / 100
   \<and> zoom_range train_transformations = 10 / 100
   \<and> shear_range train_transformations = 10 / 100
   \<and> horizontal_flip train_transformations
   \<and> fill_mode train_transformations = ''nearest''
   \<and> channel_shift_range train_transformations = channel_shift_range ImageDataGenerator
   \<and> cval train_transformations = cval ImageDataGenerator
   \<and> vertical_flip train_transformations = vertical_flip ImageDataGenerator"
  by (simp add: train_transformations_def)

subsection \<open>The learning rate\<close>





subsection \<open>Freezing the backbone\<close>

lemma length_freeze_layers: "length (freeze_layers ids h) = length h"
  by (induction ids arbitrary: h) auto

lemma freeze_layers_nth:
  "i < length h \<Longrightarrow>
   freeze_layers ids h ! i = (if i \<in> set ids then (h ! i)\<lparr>trainable := False\<rparr> else h ! i)"
proof (induction ids arbitrary: h)
  case Nil
  then show ?case by simp
next
  case (Cons j ids)
  then show ?case by (cases "i = j") (auto simp: nth_list_update)
qed

lemma length_train_step: "length (train_step u ids h) = length h"
  by (induction ids arbitrary: h) auto

lemma train_step_trainable:
  "i < length h \<Longrightarrow> trainable (train_step u ids h ! i) = trainable (h ! i)"
proof (induction ids arbitrary: h)
  case Nil
  then show ?case by simp
next
  case (Cons j ids)
  then show ?case by (cases "i = j") (auto simp: nth_list_update)
qed

lemma train_step_frozen:
  "i < length h \<Longrightarrow> \<not> trainable (h ! i) \<Longrightarrow> train_step u ids h ! i = h ! i"
proof (induction ids arbitrary: h)
  case Nil
  then show ?case by simp
next
  case (Cons j ids)
  then show ?case by (cases "i = j") (auto simp: nth_list_update)
qed

lemma train_step_untouched:
  "i \<notin> set ids \<Longrightarrow> train_step u ids h ! i = h ! i"
  by (induction ids arbitrary: h) auto

lemma train_step_updates:
  "distinct ids \<Longrightarrow> i \<in> set ids \<Longrightarrow> i < length h \<Longrightarrow> trainable (h ! i) \<Longrightarrow>
   weights (train_step u ids h ! i) = u i (weights (h ! i))"
proof (induction ids arbitrary: h)
  case Nil
  then show ?case by simp
next
  case (Cons j ids)
  show ?case
  proof (cases "i = j")
    case True
    with Cons.prems show ?thesis by (simp add: train_step_untouched)
  next
    case False
    with Cons show ?thesis by (auto simp: nth_list_update)
  qed
qed

lemma fit_frame:
  "base_model_layers (fit us n net) = base_model_layers net
   \<and> model_layers (fit us n net) = model_layers net
   \<and> length (heap (fit us n net)) = length (heap net)"
  by (induction n) (auto simp: Let_def length_train_step)

lemma fit_trainable:
  "i < length (heap net) \<Longrightarrow> trainable (heap (fit us n net) ! i) = trainable (heap net ! i)"
  by (induction n) (auto simp: Let_def train_step_trainable fit_frame)

lemma fit_frozen:
  "i < length (heap net) \<Longrightarrow> \<not> trainable (heap net ! i) \<Longrightarrow>
   heap (fit us n net) ! i = heap net ! i"
proof (induction n)
  case 0
  then show ?case by simp
next
  case (Suc n)
  then have "\<not> trainable (heap (fit us n net) ! i)" "i < length (heap (fit us n net))"
    by (simp_all add: fit_frame)
  then have "train_step (us n) (model_layers (fit us n net)) (heap (fit us n net)) ! i
      = heap (fit us n net) ! i"
    by (simp add: train_step_frozen)
  with Suc show ?case by (simp add: Let_def)
qed

lemma frozen_model_unfold:
  "heap (frozen_model imagenet init) =
     freeze_layers [0..<length imagenet]
       (map (\<lambda>w. \<lparr>kind = Pretrained, trainable = True, weights = w\<rparr>) imagenet
        @ map (\<lambda>k. \<lparr>kind = k, trainable = True, weights = init k\<rparr>) head_model)"
  "base_model_layers (frozen_model imagenet init) = [0..<length imagenet]"
  "model_layers (frozen_model imagenet init) =
     [0..<length imagenet] @ [length imagenet..<length imagenet + length head_model]"
  by (simp_all add: frozen_model_def build_model_def Let_def)

lemma frozen_model_nth:
  assumes "i < length imagenet + length head_model"
  shows "heap (frozen_model imagenet init) ! i =
     (if i < length imagenet
      then \<lparr>kind = Pretrained, trainable = False, weights = imagenet ! i\<rparr>
      else \<lparr>kind = head_model ! (i - length imagenet), trainable = True,
            weights = init (head_model ! (i - length imagenet))\<rparr>)"
  using assms
  by (simp add: frozen_model_unfold freeze_layers_nth nth_append)

lemma length_frozen_model:
  "length (heap (frozen_model imagenet init)) = length imagenet + length head_model"
  by (simp add: frozen_model_unfold length_freeze_layers)

text \<open>
  Claim C5.  The loop marks every layer of the backbone non-trainable and leaves its
  pretrained weights as they are, while the layers of the head stay trainable.  For
  any updates and any number of training steps, the weights of every backbone layer
  are still the pretrained ones; a layer whose weights differ after training is a
  layer of the head; and a step does apply the update to each head layer.
\<close>

theorem backbone_frozen:
  fixes imagenet :: "'w list" and init :: "layer_kind \<Rightarrow> 'w"
  defines "net \<equiv> frozen_model imagenet init"
  shows "base_model_layers net = [0..<length imagenet]
    \<and> (\<forall>i\<in>set (base_model_layers net).
          \<not> trainable (heap net ! i) \<and> weights (heap net ! i) = imagenet ! i)
    \<and> (\<forall>i\<in>set (model_layers net). i \<notin> set (base_model_layers net) \<longrightarrow>
          trainable (heap net ! i))
    \<and> (\<forall>updates n. \<forall>i\<in>set (base_model_layers net).
          weights (heap (fit updates n net) ! i) = imagenet ! i)
    \<and> (\<forall>updates n i. i < length (heap net) \<longrightarrow>
          weights (heap (fit updates n net) ! i) \<noteq> weights (heap net ! i) \<longrightarrow>
          i \<in> set (model_layers net) \<and> i \<notin> set (base_model_layers net))
    \<and> (\<forall>updates. \<forall>i\<in>set (model_layers net). i \<notin> set (base_model_layers net) \<longrightarrow>
          weights (heap (fit updates 1 net) ! i) = updates 0 i (weights (heap net ! i)))"
proof -
  have len: "length (heap net) = length imagenet + length head_model"
    unfolding net_def by (rule length_frozen_model)
  have base: "base_model_layers net = [0..<length imagenet]"
    unfolding net_def by (rule frozen_model_unfold)
  have model: "model_layers net =
      [0..<length imagenet] @ [length imagenet..<length imagenet + length head_model]"
    unfolding net_def by (rule frozen_model_unfold)
  have nth_base: "heap net ! i = \<lparr>kind = Pretrained, trainable = False, weights = imagenet ! i\<rparr>"
    if "i < length imagenet" for i
    unfolding net_def using that by (simp add: frozen_model_nth)
  have nth_head: "trainable (heap net ! i)"
    if "length imagenet \<le> i" "i < length imagenet + length head_model" for i
    unfolding net_def using that by (simp add: frozen_model_nth)
  have c2: "\<forall>i\<in>set (base_model_layers net).
          \<not> trainable (heap net ! i) \<and> weights (heap net ! i) = imagenet ! i"
    unfolding base by (simp add: nth_base)
  have c3: "\<forall>i\<in>set (model_layers net). i \<notin> set (base_model_layers net) \<longrightarrow>
          trainable (heap net ! i)"
    unfolding base model using nth_head by auto
  have keep: "heap (fit updates n net) ! i = heap net ! i" if "i < length imagenet"
    for updates n i
    using that by (intro fit_frozen) (simp_all add: len nth_base)
  have c4: "\<forall>updates n. \<forall>i\<in>set (base_model_layers net).
          weights (heap (fit updates n net) ! i) = imagenet ! i"
    unfolding base by (simp add: keep nth_base)
  have c5: "\<forall>updates n i. i < length (heap net) \<longrightarrow>
          weights (heap (fit updates n net) ! i) \<noteq> weights (heap net ! i) \<longrightarrow>
          i \<in> set (model_layers net) \<and> i \<notin> set (base_model_layers net)"
  proof (intro allI impI)
    fix updates n i
    assume i: "i < length (heap net)"
      and ch: "weights (heap (fit updates n net) ! i) \<noteq> weights (heap net ! i)"
    have "\<not> i < length imagenet" using ch keep by auto
    with i show "i \<in> set (model_layers net) \<and> i \<notin> set (base_model_layers net)"
      unfolding base model len by auto
  qed
  have c6: "\<forall>updates. \<forall>i\<in>set (model_layers net). i \<notin> set (base_model_layers net) \<longrightarrow>
          weights (heap (fit updates 1 net) ! i) = updates 0 i (weights (heap net ! i))"
  proof (intro allI ballI impI)
    fix updates :: "nat \<Rightarrow> nat \<Rightarrow> 'w \<Rightarrow> 'w" and i
    assume m: "i \<in> set (model_layers net)" and nb: "i \<notin> set (base_model_layers net)"
    from m nb have r: "length imagenet \<le> i" "i < length imagenet + length head_model"
      unfolding base model by auto
    have d: "distinct (model_layers net)" unfolding model by auto
    have "weights (train_step (updates 0) (model_layers net) (heap net) ! i)
        = updates 0 i (weights (heap net ! i))"
      using d m r nth_head by (intro train_step_updates) (simp_all add: len)
    then show "weights (heap (fit updates 1 net) ! i) = updates 0 i (weights (heap net ! i))"
      by (simp add: Let_def)
  qed
  show ?thesis
    by (rule conjI [OF base conjI [OF c2 conjI [OF c3 conjI [OF c4 conjI [OF c5 c6]]]]])
qed


theorem backbone_frozen_witness:
  "base_model_layers (frozen_model [10, 20 :: int] (\<lambda>k. 0)) = [0, 1]
   \<and> model_layers (frozen_model [10, 20 :: int] (\<lambda>k. 0)) = [0, 1, 2, 3, 4, 5, 6]
   \<and> \<not> trainable (heap (frozen_model [10, 20 :: int] (\<lambda>k. 0)) ! 0)
   \<and> trainable (heap (frozen_model [10, 20 :: int] (\<lambda>k. 0)) ! 2)
   \<and> weights (heap (fit (\<lambda>n i w. w + 1) 7 (frozen_model [10, 20 :: int] (\<lambda>k. 0))) ! 1) = 20
   \<and> weights (heap (fit (\<lambda>n i w. w + 1) 1 (frozen_model [10, 20 :: int] (\<lambda>k. 0))) ! 2) = 1
   \<and> weights (heap (frozen_model [10, 20 :: int] (\<lambda>k. 0)) ! 2) = 0"
proof -
  let ?net = "frozen_model [10, 20 :: int] (\<lambda>k. 0)"
  note t = backbone_frozen [of "[10, 20 :: int]" "\<lambda>k. 0"]
  have base: "base_model_layers ?net = [0, 1]"
    using t [THEN conjunct1] by (simp add: upt_conv_Cons)
  have model: "model_layers ?net = [0, 1, 2, 3, 4, 5, 6]"
    by (simp add: frozen_model_def build_model_def head_model_def upt_conv_Cons)
  have in0: "0 \<in> set (base_model_layers ?net)" and in1: "1 \<in> set (base_model_layers ?net)"
    by (simp_all add: base)
  have in2: "2 \<in> set (model_layers ?net)" and out2: "2 \<notin> set (base_model_layers ?net)"
    by (simp_all add: base model)
  have w2: "weights (heap ?net ! 2) = 0"
    by (simp add: frozen_model_def build_model_def head_model_def upt_conv_Cons)
  have len: "2 < length (heap ?net)"
    by (simp add: frozen_model_def build_model_def head_model_def length_freeze_layers)
  have c2: "\<not> trainable (heap ?net ! 0)"
    using t [THEN conjunct2, THEN conjunct1, THEN bspec, OF in0] by simp
  have c3: "trainable (heap ?net ! 2)"
    using t [THEN conjunct2, THEN conjunct2, THEN conjunct1, THEN bspec, OF in2] out2 by simp
  have c4: "weights (heap (fit (\<lambda>n i w. w + 1) 7 ?net) ! 1) = 20"
    using t [THEN conjunct2, THEN conjunct2, THEN conjunct2, THEN conjunct1,
        THEN spec, THEN spec, THEN bspec, OF in1, of "\<lambda>n i w. w + 1" 7]
    by simp
  have c6: "weights (heap (fit (\<lambda>n i w. w + 1) 1 ?net) ! 2) = 1"
    using t [THEN conjunct2, THEN conjunct2, THEN conjunct2, THEN conjunct2, THEN conjunct2,
        THEN spec, THEN bspec, OF in2, of "\<lambda>n i w. w + 1"] out2 w2
    by simp
  have ch: "weights (heap (fit (\<lambda>n i w. w + 1) 1 ?net) ! 2) \<noteq> weights (heap ?net ! 2)"
    unfolding c6 w2 by simp
  have c5: "2 \<in> set (model_layers ?net) \<and> 2 \<notin> set (base_model_layers ?net)"
    using t [THEN conjunct2, THEN conjunct2, THEN conjunct2, THEN conjunct2, THEN conjunct1,
        THEN spec, THEN spec, THEN spec, THEN mp, THEN mp, OF len ch] .
  show ?thesis
    by (rule conjI [OF base conjI [OF model conjI [OF c2 conjI [OF c3 conjI [OF c4
          conjI [OF c6 w2]]]]]])
qed

subsection \<open>A dataset without images\<close>

lemma filenames_subset: "set (filenames es) \<subseteq> set (all_filenames es)"
proof (induction es)
  case Nil
  then show ?case by simp
next
  case (Cons e es)
  then show ?case by (cases e) auto
qed

lemma walk_filenames:
  "(\<forall>t\<in>set (os_walk sep rootDir es). set (snd (snd t)) \<subseteq> set (all_filenames es))"
  "(\<forall>t\<in>set (walk_subdirs sep rootDir es). set (snd (snd t)) \<subseteq> set (all_filenames es))"
proof (induction sep rootDir es and sep rootDir es rule: os_walk_walk_subdirs.induct)
  case (1 sep rootDir es)
  then show ?case using filenames_subset by auto
next
  case (2 sep rootDir)
  then show ?case by simp
next
  case (3 sep rootDir n es)
  then show ?case by auto
next
  case (4 sep rootDir n sub es)
  then show ?case by auto
qed

lemma list_images_subset:
  "p \<in> set (list_images sep basePath es) \<Longrightarrow>
   \<exists>rootDir f. f \<in> set (all_filenames es) \<and> is_image f \<and> p = os_path_join sep rootDir f"
  using walk_filenames(1) [of sep basePath es]
  by (fastforce simp: list_images_def)

lemma list_images_none:
  assumes "\<forall>f\<in>set (all_filenames es). \<not> is_image f"
  shows "list_images sep basePath es = []"
proof (rule ccontr)
  assume "list_images sep basePath es \<noteq> []"
  then obtain p where "p \<in> set (list_images sep basePath es)"
    by (cases "list_images sep basePath es") auto
  from list_images_subset [OF this] assms show False by blast
qed

text \<open>
  Claim C1 as stated fails: for a dataset directory with two class directories and no
  image file, the loading stage does not fail; it returns empty data and labels.
\<close>

theorem empty_dataset_loads_nothing_counterexample:
  "list_all (\<lambda>f. \<not> is_image f)
     (all_filenames [Dir ''with_mask'' [], Dir ''without_mask'' [File ''notes.txt'']])
   \<and> load_dataset (\<lambda>p. Inl IOError :: py_error + unit) CHR ''/'' ''dataset''
        [Dir ''with_mask'' [], Dir ''without_mask'' [File ''notes.txt'']] = Inr ([], [])"
  by code_simp

text \<open>
  Claim C1, amended.  When no file of the dataset directory, at any depth, is
  recognised as an image, the enumeration yields no path and reports nothing, and the
  loading stage returns empty data and empty labels whatever the image loader does.
  The run fails only in the next stage: the label encoder raises \<^verbatim>\<open>ValueError\<close> on
  the empty label array.
\<close>

theorem empty_dataset_fails_in_encoder:
  assumes "\<forall>f\<in>set (all_filenames es). \<not> is_image f"
  shows "list_images sep dataset es = []
       \<and> load_dataset load sep dataset es = Inr ([], [])
       \<and> encode_labels [] = Inl ValueError
       \<and> load_and_encode load sep dataset es = Inl ValueError"
proof -
  have a: "list_images sep dataset es = []"
    using assms by (rule list_images_none)
  have b: "load_dataset load sep dataset es = Inr ([], [])"
    by (simp add: load_dataset_def a)
  have c: "encode_labels [] = Inl ValueError"
    by (simp add: encode_labels_def LabelBinarizer_fit_transform_def LabelBinarizer_fit_def)
  have d: "load_and_encode load sep dataset es = Inl ValueError"
    by (simp add: load_and_encode_def b c)
  show ?thesis by (rule conjI [OF a conjI [OF b conjI [OF c d]]])
qed

theorem empty_dataset_fails_in_encoder_witness:
  "load_dataset (\<lambda>p. Inr (length p)) CHR ''/'' ''dataset''
        [Dir ''with_mask'' [], Dir ''without_mask'' [File ''notes.txt'']] = Inr ([], [])
   \<and> load_and_encode (\<lambda>p. Inr (length p)) CHR ''/'' ''dataset''
        [Dir ''with_mask'' [], Dir ''without_mask'' [File ''notes.txt'']] = Inl ValueError"
proof -
  have h: "\<forall>f\<in>set (all_filenames [Dir ''with_mask'' [], Dir ''without_mask'' [File ''notes.txt'']]).
      \<not> is_image f"
    by code_simp
  note t = empty_dataset_fails_in_encoder [OF h, of "CHR ''/''" "''dataset''" "\<lambda>p. Inr (length p)"]
  show ?thesis
    by (rule conjI [OF t [THEN conjunct2, THEN conjunct1]
          t [THEN conjunct2, THEN conjunct2, THEN conjunct2]])
qed

subsection \<open>Label encoding\<close>

lemma head_units_output_layer: "last head_model = Dense head_units"
  by (simp add: head_model_def head_units_def)

lemma np_unique_props:
  "sorted (np_unique y)" "distinct (np_unique y)" "set (np_unique y) = set y"
  "length (np_unique y) = card (set y)" "sort (np_unique y) = np_unique y"
  by (simp_all add: np_unique_def length_remdups_card_conv sorted_sort_id)

lemma searchsorted_index:
  "sorted cs \<Longrightarrow> distinct cs \<Longrightarrow> v \<in> set cs \<Longrightarrow>
   searchsorted cs v < length cs \<and> cs ! searchsorted cs v = v"
proof (induction cs)
  case Nil
  then show ?case by simp
next
  case (Cons c cs)
  show ?case
  proof (cases "c < v")
    case True
    with Cons.prems have "v \<in> set cs" by auto
    with Cons True show ?thesis by (simp add: searchsorted_def)
  next
    case False
    with Cons.prems have "v = c" by auto
    then show ?thesis by (simp add: searchsorted_def)
  qed
qed

lemma length_onehot: "length (onehot k i) = k"
  by (simp add: onehot_def)

lemma onehot_split:
  "i < k \<Longrightarrow> onehot k i = replicate i 0 @ 1 # replicate (k - Suc i) 0"
  by (rule nth_equalityI) (auto simp: onehot_def nth_append nth_Cons')

lemma set_onehot: "i < k \<Longrightarrow> 1 \<in> set (onehot k i) \<and> set (onehot k i) \<subseteq> {0, 1}"
  by (auto simp: onehot_def)

lemma Max_bits: "set xs \<subseteq> {0, 1 :: nat} \<Longrightarrow> 1 \<in> set xs \<Longrightarrow> Max (set xs) = 1"
  by (intro Max_eqI) auto

lemma argmax_onehot: "i < k \<Longrightarrow> argmax (onehot k i) = i"
proof -
  assume i: "i < k"
  have m: "Max (set (onehot k i)) = 1"
    using set_onehot [OF i] by (intro Max_bits) auto
  have "takeWhile (\<lambda>x. x \<noteq> 1) (onehot k i) = replicate i 0"
    unfolding onehot_split [OF i] by (subst takeWhile_append2) auto
  then show ?thesis by (simp add: argmax_def m)
qed

lemma last_onehot: "0 < k \<Longrightarrow> last (onehot k i) = (if i = k - 1 then 1 else 0)"
  by (simp add: onehot_def last_map)


lemma searchsorted_lt:
  "v \<in> set y \<Longrightarrow> searchsorted (np_unique y) v < card (set y)"
  using searchsorted_index [of "np_unique y" v] by (simp add: np_unique_props)

lemma searchsorted_nth:
  "v \<in> set y \<Longrightarrow> np_unique y ! searchsorted (np_unique y) v = v"
  using searchsorted_index [of "np_unique y" v] by (simp add: np_unique_props)

lemma searchsorted_onto:
  assumes "i < card (set y)"
  shows "\<exists>v\<in>set y. searchsorted (np_unique y) v = i"
proof -
  let ?cs = "np_unique y"
  from assms have i: "i < length ?cs" by (simp add: np_unique_props)
  then have v: "?cs ! i \<in> set y"
    using nth_mem [OF i] by (simp add: np_unique_props)
  have "searchsorted ?cs (?cs ! i) < length ?cs"
    "?cs ! searchsorted ?cs (?cs ! i) = ?cs ! i"
    using searchsorted_lt [OF v] searchsorted_nth [OF v] by (simp_all add: np_unique_props)
  then have "searchsorted ?cs (?cs ! i) = i"
    using i np_unique_props(2) [of y] by (simp add: nth_eq_iff_index_eq)
  with v show ?thesis by blast
qed

lemma label_binarize_one:
  "card (set y) = 1 \<Longrightarrow> label_binarize y (np_unique y) = map (\<lambda>_. [0]) y"
  by (simp add: label_binarize_def type_of_target_def np_unique_props)

lemma label_binarize_two:
  assumes "card (set y) = 2"
  shows "label_binarize y (np_unique y) = map (\<lambda>v. [searchsorted (np_unique y) v]) y"
proof -
  have row: "[last (if v \<in> set (np_unique y)
                    then onehot 2 (searchsorted (np_unique y) v)
                    else replicate 2 0)] = [searchsorted (np_unique y) v]"
    if "v \<in> set y" for v
  proof -
    have "searchsorted (np_unique y) v < 2"
      using searchsorted_lt [OF that] assms by simp
    then show ?thesis
      using that by (auto simp: np_unique_props last_onehot)
  qed
  have "label_binarize y (np_unique y) =
      map (\<lambda>row. [last row])
        (map (\<lambda>v. if v \<in> set (np_unique y)
                   then onehot 2 (searchsorted (np_unique y) v)
                   else replicate 2 0) y)"
    using assms by (simp add: label_binarize_def type_of_target_def np_unique_props Let_def)
  also have "\<dots> = map (\<lambda>v. [searchsorted (np_unique y) v]) y"
    using row by (simp add: comp_def)
  finally show ?thesis .
qed

lemma label_binarize_many:
  assumes "3 \<le> card (set y)"
  shows "label_binarize y (np_unique y) =
           map (\<lambda>v. onehot (card (set y)) (searchsorted (np_unique y) v)) y"
  using assms
  by (simp add: label_binarize_def type_of_target_def np_unique_props Let_def)

lemma to_categorical_one:
  "y \<noteq> [] \<Longrightarrow> to_categorical (map (\<lambda>_. [0]) y) = Inr (Arr2 (map (\<lambda>_. [1]) y))"
proof -
  assume ne: "y \<noteq> []"
  have flat: "concat (map (\<lambda>_. [0::nat]) y) = map (\<lambda>_. 0) y"
    by (induction y) auto
  have "set (map (\<lambda>_. 0::nat) y) = {0}"
    using ne by (cases y) auto
  then have m: "Max (set (map (\<lambda>_. 0::nat) y)) = 0"
    by simp
  have hd1: "length (hd (map (\<lambda>_. [0::nat]) y)) = 1"
    using ne by (cases y) auto
  show ?thesis
    unfolding to_categorical_def Let_def flat m using ne hd1
    by (simp add: onehot_def comp_def)
qed

lemma to_categorical_two:
  assumes ne: "y \<noteq> []" and lt: "\<forall>v\<in>set y. f v < 2" and one: "\<exists>v\<in>set y. f v = 1"
  shows "to_categorical (map (\<lambda>v. [f v]) y) = Inr (Arr2 (map (\<lambda>v. onehot 2 (f v)) y))"
proof -
  have flat: "concat (map (\<lambda>v. [f v]) y) = map f y"
    by (induction y) auto
  have "set (map f y) \<subseteq> {0, 1}"
    using lt by (auto simp: less_2_cases_iff)
  moreover have "1 \<in> set (map f y)"
    using one by force
  ultimately have m: "Max (set (map f y)) = 1"
    by (rule Max_bits)
  have hd1: "length (hd (map (\<lambda>v. [f v]) y)) = 1"
    using ne by (cases y) auto
  show ?thesis
    unfolding to_categorical_def Let_def flat m using ne hd1
    by (simp add: comp_def numeral_2_eq_2)
qed

lemma to_categorical_many:
  assumes ne: "y \<noteq> []" and k: "3 \<le> k" and lt: "\<forall>v\<in>set y. f v < k"
  shows "to_categorical (map (\<lambda>v. onehot k (f v)) y) =
           Inr (Arr3 (map (\<lambda>v. map (onehot 2) (onehot k (f v))) y))"
proof -
  let ?Y = "map (\<lambda>v. onehot k (f v)) y"
  obtain v0 where v0: "v0 \<in> set y" using ne by (cases y) auto
  have sub: "set (concat ?Y) \<subseteq> {0, 1}"
    by (auto simp: onehot_def)
  have "1 \<in> set (onehot k (f v0))"
    using set_onehot lt v0 by blast
  then have one: "1 \<in> set (concat ?Y)"
    using v0 by auto
  have m: "Max (set (concat ?Y)) = 1"
    using sub one by (rule Max_bits)
  have nonempty: "concat ?Y \<noteq> []"
  proof
    assume "concat ?Y = []"
    then have "set (concat ?Y) = {}" by (simp only: list.set)
    with one show False by (simp only: empty_iff)
  qed
  have hdk: "length (hd ?Y) \<noteq> 1"
    using ne k by (cases y) (auto simp: length_onehot)
  show ?thesis
    unfolding to_categorical_def Let_def m using nonempty hdk
    by (simp add: comp_def numeral_2_eq_2)
qed

lemma encode_labels_one:
  assumes "card (set y) = 1"
  shows "encode_labels y =
    Inr (\<lparr>lb_classes = np_unique y, lb_y_type = Binary\<rparr>, Arr2 (map (\<lambda>_. [1]) y))"
proof -
  have ne: "y \<noteq> []" using assms by auto
  show ?thesis
    using ne assms
    by (simp add: encode_labels_def LabelBinarizer_fit_transform_def LabelBinarizer_fit_def
        LabelBinarizer_transform_def label_binarize_one to_categorical_one
        type_of_target_def np_unique_props)
qed

lemma encode_labels_two:
  assumes "card (set y) = 2"
  shows "encode_labels y =
    Inr (\<lparr>lb_classes = np_unique y, lb_y_type = Binary\<rparr>,
         Arr2 (map (\<lambda>v. onehot 2 (searchsorted (np_unique y) v)) y))"
proof -
  have ne: "y \<noteq> []" using assms by auto
  have lt: "\<forall>v\<in>set y. searchsorted (np_unique y) v < 2"
    using searchsorted_lt [of _ y] assms by auto
  have one: "\<exists>v\<in>set y. searchsorted (np_unique y) v = 1"
    using searchsorted_onto [of 1 y] assms by simp
  have cat: "to_categorical (map (\<lambda>v. [searchsorted (np_unique y) v]) y) =
      Inr (Arr2 (map (\<lambda>v. onehot 2 (searchsorted (np_unique y) v)) y))"
    using ne lt one by (rule to_categorical_two)
  show ?thesis
    using ne assms
    by (simp add: encode_labels_def LabelBinarizer_fit_transform_def LabelBinarizer_fit_def
        LabelBinarizer_transform_def label_binarize_two cat
        type_of_target_def np_unique_props)
qed

lemma encode_labels_many:
  assumes "3 \<le> card (set y)"
  shows "encode_labels y =
    Inr (\<lparr>lb_classes = np_unique y, lb_y_type = Multiclass\<rparr>,
         Arr3 (map (\<lambda>v. map (onehot 2) (onehot (card (set y)) (searchsorted (np_unique y) v)))
                 y))"
proof -
  have ne: "y \<noteq> []" using assms by auto
  have lt: "\<forall>v\<in>set y. searchsorted (np_unique y) v < card (set y)"
    using searchsorted_lt by blast
  have cat: "to_categorical
      (map (\<lambda>v. onehot (card (set y)) (searchsorted (np_unique y) v)) y) =
      Inr (Arr3 (map (\<lambda>v. map (onehot 2)
                    (onehot (card (set y)) (searchsorted (np_unique y) v))) y))"
    using ne assms lt by (rule to_categorical_many)
  show ?thesis
    using ne assms
    by (simp add: encode_labels_def LabelBinarizer_fit_transform_def LabelBinarizer_fit_def
        LabelBinarizer_transform_def label_binarize_many cat
        type_of_target_def np_unique_props)
qed


lemma decode_one:
  assumes "card (set y) = 1"
  shows "decode_encoded y = Inr (Names1 y)"
proof -
  have len: "length (np_unique y) = 1"
    using assms by (simp add: np_unique_props)
  have am: "argmax [Suc 0] = 0"
    using argmax_onehot [of 0 1] by (simp add: onehot_def)
  have nth: "np_unique y ! 0 = v" if "v \<in> set y" for v
    using searchsorted_lt [OF that] searchsorted_nth [OF that] assms by simp
  have "map (\<lambda>_. np_unique y ! 0) y = y"
    using nth by (simp add: map_idI)
  then show ?thesis
    by (simp add: decode_encoded_def encode_labels_one [OF assms] argmax_axis1_def
        take_classes_def comp_def am len list_all_iff)
qed

lemma decode_two:
  assumes "card (set y) = 2"
  shows "decode_encoded y = Inr (Names1 y)"
proof -
  let ?idx = "searchsorted (np_unique y)"
  have len: "length (np_unique y) = 2"
    using assms by (simp add: np_unique_props)
  have lt: "?idx v < 2" if "v \<in> set y" for v
    using searchsorted_lt [OF that] assms by simp
  have am: "argmax (onehot 2 (?idx v)) = ?idx v" if "v \<in> set y" for v
    using lt [OF that] by (rule argmax_onehot)
  have am_map: "map (\<lambda>v. argmax (onehot 2 (?idx v))) y = map ?idx y"
    using am by simp
  have again: "map (\<lambda>v. np_unique y ! ?idx v) y = y"
    using searchsorted_nth by (simp add: map_idI)
  have ok: "list_all (\<lambda>i. i < length (np_unique y)) (map ?idx y)"
    using lt by (simp add: len list_all_iff)
  show ?thesis
    using ok again
    by (simp add: decode_encoded_def encode_labels_two [OF assms] argmax_axis1_def
        take_classes_def comp_def am_map)
qed

text \<open>
  Claim C3 as stated fails: with three class labels the encoded label of a sample is
  a block of three rows, its argmax along the second axis is a pair of positions, and
  reading the class list at it gives two names, not the label.
\<close>

theorem encoding_round_trip_counterexample:
  "decode_encoded [''incorrect_mask'', ''with_mask'', ''without_mask''] =
     Inr (Names2 [ [''with_mask'', ''incorrect_mask''],
                  [''incorrect_mask'', ''with_mask''],
                  [''incorrect_mask'', ''without_mask'']])
   \<and> decode_encoded [''incorrect_mask'', ''with_mask'', ''without_mask''] \<noteq>
     Inr (Names1 [''incorrect_mask'', ''with_mask'', ''without_mask''])"
  by code_simp

text \<open>
  Claim C3, amended.  For a dataset with at least one sample and at most two distinct
  labels, taking the argmax of every encoded label and reading the fitted class list
  at it gives back the labels, each in its place.
\<close>

theorem encoding_round_trip:
  assumes "labels \<noteq> []" and "card (set labels) \<le> 2"
  shows "decode_encoded labels = Inr (Names1 labels)"
proof -
  have "0 < card (set labels)"
    using assms(1) by (simp add: card_gt_0_iff)
  with assms(2) consider "card (set labels) = 1" | "card (set labels) = 2"
    by linarith
  then show ?thesis
    by cases (simp_all add: decode_one decode_two)
qed

theorem encoding_round_trip_witness:
  "[''with_mask'', ''without_mask'', ''with_mask''] \<noteq> []
   \<and> card (set [''with_mask'', ''without_mask'', ''with_mask'']) = 2
   \<and> decode_encoded [''with_mask'', ''without_mask'', ''with_mask''] =
       Inr (Names1 [''with_mask'', ''without_mask'', ''with_mask''])"
proof -
  have h1: "[''with_mask'', ''without_mask'', ''with_mask''] \<noteq> []"
    by simp
  have c: "card (set [''with_mask'', ''without_mask'', ''with_mask'']) = 2"
    by code_simp
  then have h2: "card (set [''with_mask'', ''without_mask'', ''with_mask'']) \<le> 2"
    by simp
  show ?thesis
    by (rule conjI [OF h1 conjI [OF c encoding_round_trip [OF h1 h2]]])
qed

text \<open>
  Claim C9 as stated fails for a single class: the encoded matrix then has one
  column for the one fitted class, every argmax is 0, and reading the class list at
  it gives the labels back, so both shape and argmax still correspond to the fitted
  class list.
\<close>

theorem one_class_still_corresponds_counterexample:
  "encode_labels [''with_mask'', ''with_mask''] =
     Inr (\<lparr>lb_classes = [''with_mask''], lb_y_type = Binary\<rparr>, Arr2 [ [1], [1] ])
   \<and> argmax_axis1 (Arr2 [ [1], [1] ]) = Idx1 [0, 0]
   \<and> decode_encoded [''with_mask'', ''with_mask''] =
       Inr (Names1 [''with_mask'', ''with_mask''])"
  by code_simp

text \<open>
  Claim C9, amended.  For a dataset with at least one sample the encoding succeeds,
  and it is a matrix of indicator rows as wide as the output layer (two columns)
  exactly when there are two distinct labels.  With one label it is a single column
  of ones, which still decodes to the labels.  With three or more labels it is an
  array of three axes, one block of \<open>k\<close> rows of width 2 for each sample (\<open>k\<close> the
  number of labels), and its argmax along the second axis is a row of positions for
  each sample instead of one class index.
\<close>

theorem two_columns_iff_two_classes:
  assumes "labels \<noteq> []"
  shows "\<exists>enc. encode_labels labels = Inr enc
      \<and> lb_classes (fst enc) = np_unique labels
      \<and> (two_column_onehot labels enc \<longleftrightarrow> card (set labels) = 2)
      \<and> (card (set labels) = 1 \<longrightarrow>
            snd enc = Arr2 (map (\<lambda>_. [1]) labels)
            \<and> decode_encoded labels = Inr (Names1 labels))
      \<and> (3 \<le> card (set labels) \<longrightarrow>
            (\<exists>A I. snd enc = Arr3 A \<and> argmax_axis1 (snd enc) = Idx2 I
               \<and> length A = length labels
               \<and> (\<forall>M\<in>set A. length M = card (set labels) \<and> (\<forall>r\<in>set M. length r = 2))))"
proof -
  have "0 < card (set labels)"
    using assms by (simp add: card_gt_0_iff)
  then consider (one) "card (set labels) = 1" | (two) "card (set labels) = 2"
    | (many) "3 \<le> card (set labels)"
    by linarith
  then show ?thesis
  proof cases
    case one
    let ?enc = "(\<lparr>lb_classes = np_unique labels, lb_y_type = Binary\<rparr>,
                 Arr2 (map (\<lambda>_. [1]) labels))"
    have "\<not> two_column_onehot labels ?enc"
    proof
      assume "two_column_onehot labels ?enc"
      then have "map (\<lambda>_. [1::nat]) labels =
          map (\<lambda>v. onehot head_units (searchsorted (np_unique labels) v)) labels"
        by (simp add: two_column_onehot_def)
      then have "length [1::nat] =
          length (onehot head_units (searchsorted (np_unique labels) (hd labels)))"
        using assms by (cases labels) auto
      then show False by (simp add: length_onehot head_units_def)
    qed
    with one show ?thesis
      using encode_labels_one [OF one] decode_one [OF one] by auto
  next
    case two
    let ?enc = "(\<lparr>lb_classes = np_unique labels, lb_y_type = Binary\<rparr>,
                 Arr2 (map (\<lambda>v. onehot 2 (searchsorted (np_unique labels) v)) labels))"
    have "two_column_onehot labels ?enc"
      by (simp add: two_column_onehot_def head_units_def)
    with two show ?thesis
      using encode_labels_two [OF two] by auto
  next
    case many
    let ?A = "map (\<lambda>v. map (onehot 2)
                 (onehot (card (set labels)) (searchsorted (np_unique labels) v))) labels"
    let ?enc = "(\<lparr>lb_classes = np_unique labels, lb_y_type = Multiclass\<rparr>, Arr3 ?A)"
    have no: "\<not> two_column_onehot labels ?enc"
      by (simp add: two_column_onehot_def)
    have shape: "length ?A = length labels
        \<and> (\<forall>M\<in>set ?A. length M = card (set labels) \<and> (\<forall>r\<in>set M. length r = 2))"
      by (auto simp: length_onehot)
    have idx: "\<exists>I. argmax_axis1 (Arr3 ?A) = Idx2 I"
      by (simp add: argmax_axis1_def)
    have "\<exists>A I. snd ?enc = Arr3 A \<and> argmax_axis1 (snd ?enc) = Idx2 I
               \<and> length A = length labels
               \<and> (\<forall>M\<in>set A. length M = card (set labels) \<and> (\<forall>r\<in>set M. length r = 2))"
      using shape idx by auto
    with many no show ?thesis
      using encode_labels_many [OF many] by auto
  qed
qed


theorem two_columns_iff_two_classes_witness:
  "(\<exists>enc. encode_labels [''with_mask'', ''without_mask''] = Inr enc
       \<and> two_column_onehot [''with_mask'', ''without_mask''] enc)
   \<and> (\<exists>enc. encode_labels [''with_mask'', ''with_mask''] = Inr enc
       \<and> snd enc = Arr2 [ [1], [1] ]
       \<and> \<not> two_column_onehot [''with_mask'', ''with_mask''] enc)
   \<and> (\<exists>enc A. encode_labels [''incorrect_mask'', ''with_mask'', ''without_mask''] = Inr enc
       \<and> snd enc = Arr3 A \<and> length A = 3
       \<and> \<not> two_column_onehot [''incorrect_mask'', ''with_mask'', ''without_mask''] enc)"
proof -
  let ?L2 = "[''with_mask'', ''without_mask'']"
  let ?L1 = "[''with_mask'', ''with_mask'']"
  let ?L3 = "[''incorrect_mask'', ''with_mask'', ''without_mask'']"
  have c2: "card (set ?L2) = 2" and c1: "card (set ?L1) = 1" and c3: "card (set ?L3) = 3"
    by code_simp+
  have ne2: "?L2 \<noteq> []" and ne1: "?L1 \<noteq> []" and ne3: "?L3 \<noteq> []"
    by simp_all
  from two_columns_iff_two_classes [OF ne2] obtain e2 where
    e2: "encode_labels ?L2 = Inr e2"
      "two_column_onehot ?L2 e2 \<longleftrightarrow> card (set ?L2) = 2"
    by (elim exE conjE)
  from two_columns_iff_two_classes [OF ne1] obtain e1 where
    e1: "encode_labels ?L1 = Inr e1"
      "two_column_onehot ?L1 e1 \<longleftrightarrow> card (set ?L1) = 2"
      "card (set ?L1) = 1 \<longrightarrow> snd e1 = Arr2 (map (\<lambda>_. [1]) ?L1)
          \<and> decode_encoded ?L1 = Inr (Names1 ?L1)"
    by (elim exE conjE)
  from two_columns_iff_two_classes [OF ne3] obtain e3 where
    e3: "encode_labels ?L3 = Inr e3"
      "two_column_onehot ?L3 e3 \<longleftrightarrow> card (set ?L3) = 2"
      "3 \<le> card (set ?L3) \<longrightarrow>
            (\<exists>A I. snd e3 = Arr3 A \<and> argmax_axis1 (snd e3) = Idx2 I
               \<and> length A = length ?L3
               \<and> (\<forall>M\<in>set A. length M = card (set ?L3) \<and> (\<forall>r\<in>set M. length r = 2)))"
    by (elim exE conjE)
  have p2: "\<exists>enc. encode_labels ?L2 = Inr enc \<and> two_column_onehot ?L2 enc"
    using e2 c2 by (intro exI [of _ e2]) simp
  have "snd e1 = Arr2 [ [1], [1] ]" "\<not> two_column_onehot ?L1 e1"
    using e1(2,3) c1 by simp_all
  then have p1: "\<exists>enc. encode_labels ?L1 = Inr enc \<and> snd enc = Arr2 [ [1], [1] ]
       \<and> \<not> two_column_onehot ?L1 enc"
    using e1(1) by (intro exI [of _ e1]) simp
  from e3(3) c3 obtain A where "snd e3 = Arr3 A" "length A = 3"
    by auto
  moreover have "\<not> two_column_onehot ?L3 e3"
    using e3(2) c3 by simp
  ultimately have p3: "\<exists>enc A. encode_labels ?L3 = Inr enc \<and> snd enc = Arr3 A \<and> length A = 3
       \<and> \<not> two_column_onehot ?L3 enc"
    using e3(1) by (intro exI [of _ e3] exI [of _ A]) simp
  show ?thesis
    by (rule conjI [OF p2 conjI [OF p1 p3]])
qed

end
